theory Spec2Isabelle
  imports Complex_Main "HOL-Library.Multiset" "HOL-Library.List_Lexorder" "HOL-Library.Char_ord"
begin

section \<open>Strings and numbers of the host language\<close>

text \<open>
  Strings are lists of characters. The functions below are the string operations of the
  source: the regular expression class \<open>\D\<close>, \<open>parseInt(s, 10)\<close> on digit strings,
  \<open>Number.prototype.toString\<close> on integers, \<open>padStart\<close> and \<open>substring\<close>.
\<close>

definition isDigit :: "char \<Rightarrow> bool" where
  "isDigit c = (c \<in> set ''0123456789'')"

definition digitChar :: "nat \<Rightarrow> char" where
  "digitChar k = ''0123456789'' ! k"

definition digitVal :: "char \<Rightarrow> nat" where
  "digitVal c = of_char c - 48"

text \<open>\<open>s.replace(/\D/g, '')\<close>: every character that is not a decimal digit is removed.\<close>

definition removeNonDigits :: "string \<Rightarrow> string" where
  "removeNonDigits s = filter isDigit s"

text \<open>\<open>s.substring(a, b)\<close> for \<open>a \<le> b\<close>.\<close>

definition substring :: "string \<Rightarrow> nat \<Rightarrow> nat \<Rightarrow> string" where
  "substring s a b = take (b - a) (drop a s)"

text \<open>\<open>parseInt(s, 10)\<close> on a string of decimal digits (the only strings it is applied to).\<close>

definition parseInt :: "string \<Rightarrow> int" where
  "parseInt s = int (foldl (\<lambda>acc c. 10 * acc + digitVal c) 0 s)"

fun natToString :: "nat \<Rightarrow> string" where
  "natToString n =
     (if n < 10 then [digitChar n] else natToString (n div 10) @ [digitChar (n mod 10)])"

declare natToString.simps [simp del]

text \<open>\<open>n.toString()\<close> and the template literal \<open>`${n}`\<close> for an integer \<open>n\<close>.\<close>

definition toString :: "int \<Rightarrow> string" where
  "toString n = (if n < 0 then CHR ''-'' # natToString (nat (- n)) else natToString (nat n))"

definition padStart :: "nat \<Rightarrow> char \<Rightarrow> string \<Rightarrow> string" where
  "padStart n c s = replicate (n - length s) c @ s"

section \<open>The Date object\<close>

text \<open>
  The source computes every date with the built-in \<open>Date\<close> object. Its model follows the
  definitions of ECMA-262 (Day, TimeWithinDay, DaysInYear, DayFromYear, YearFromTime,
  MonthFromTime, DateFromTime, MakeDay, MakeDate, TimeClip, LocalTime, UTC). A time value is
  a number of milliseconds since 1970-01-01T00:00:00Z; the time value \<open>NaN\<close> of an invalid
  date is \<open>None\<close>. The offset of the host's time zone from UTC is the parameter \<open>tza\<close>, in
  milliseconds, positive east of Greenwich (28800000 in Taipei); it is taken as constant, so
  daylight saving changes are outside the model.
\<close>

datatype error = RangeError

definition msPerDay :: int where
  "msPerDay = 86400000"

definition Day :: "int \<Rightarrow> int" where
  "Day t = t div msPerDay"

definition TimeWithinDay :: "int \<Rightarrow> int" where
  "TimeWithinDay t = t mod msPerDay"

definition DaysInYear :: "int \<Rightarrow> int" where
  "DaysInYear y =
     (if y mod 4 \<noteq> 0 then 365 else if y mod 100 \<noteq> 0 then 366
      else if y mod 400 \<noteq> 0 then 365 else 366)"

definition DayFromYear :: "int \<Rightarrow> int" where
  "DayFromYear y =
     365 * (y - 1970) + (y - 1969) div 4 - (y - 1901) div 100 + (y - 1601) div 400"

definition TimeFromYear :: "int \<Rightarrow> int" where
  "TimeFromYear y = msPerDay * DayFromYear y"

text \<open>
  \<open>YearFromTime(t)\<close> is the largest \<open>y\<close> with \<open>TimeFromYear(y) \<le> t\<close>. It is computed from
  an estimate that is at most two years too small (lemma \<open>YearFromTime_bounds\<close> below shows
  that the result is that largest \<open>y\<close>).
\<close>

definition YearFromTime :: "int \<Rightarrow> int" where
  "YearFromTime t =
     (let y = 1969 + (400 * Day t) div 146097 in
      if TimeFromYear (y + 2) \<le> t then y + 2
      else if TimeFromYear (y + 1) \<le> t then y + 1
      else y)"

definition InLeapYear :: "int \<Rightarrow> int" where
  "InLeapYear t = (if DaysInYear (YearFromTime t) = 366 then 1 else 0)"

definition DayWithinYear :: "int \<Rightarrow> int" where
  "DayWithinYear t = Day t - DayFromYear (YearFromTime t)"

definition MonthFromTime :: "int \<Rightarrow> int" where
  "MonthFromTime t =
     (let d = DayWithinYear t; l = InLeapYear t in
      if d < 31 then 0
      else if d < 59 + l then 1
      else if d < 90 + l then 2
      else if d < 120 + l then 3
      else if d < 151 + l then 4
      else if d < 181 + l then 5
      else if d < 212 + l then 6
      else if d < 243 + l then 7
      else if d < 273 + l then 8
      else if d < 304 + l then 9
      else if d < 334 + l then 10
      else 11)"

definition DateFromTime :: "int \<Rightarrow> int" where
  "DateFromTime t =
     (let d = DayWithinYear t; l = InLeapYear t; m = MonthFromTime t in
      if m = 0 then d + 1
      else if m = 1 then d - 30
      else if m = 2 then d - 58 - l
      else if m = 3 then d - 89 - l
      else if m = 4 then d - 119 - l
      else if m = 5 then d - 150 - l
      else if m = 6 then d - 180 - l
      else if m = 7 then d - 211 - l
      else if m = 8 then d - 242 - l
      else if m = 9 then d - 272 - l
      else if m = 10 then d - 303 - l
      else d - 333 - l)"

text \<open>The number of days of year \<open>y\<close> before its month \<open>mn\<close> (0 is January).\<close>

definition monthStart :: "int \<Rightarrow> int \<Rightarrow> int" where
  "monthStart y mn =
     (let l = (if DaysInYear y = 366 then 1 else 0) in
      if mn = 0 then 0
      else if mn = 1 then 31
      else if mn = 2 then 59 + l
      else if mn = 3 then 90 + l
      else if mn = 4 then 120 + l
      else if mn = 5 then 151 + l
      else if mn = 6 then 181 + l
      else if mn = 7 then 212 + l
      else if mn = 8 then 243 + l
      else if mn = 9 then 273 + l
      else if mn = 10 then 304 + l
      else 334 + l)"

text \<open>
  \<open>MakeDay(year, month, date)\<close>: the day number of the first day of month \<open>month mod 12\<close> of
  year \<open>year + floor(month / 12)\<close>, plus \<open>date - 1\<close>. Neither the month nor the date is
  clamped: a date beyond the end of the month runs into the following month.
\<close>

definition MakeDay :: "int \<Rightarrow> int \<Rightarrow> int \<Rightarrow> int" where
  "MakeDay year month date =
     (let ym = year + month div 12; mn = month mod 12 in
      DayFromYear ym + monthStart ym mn + date - 1)"

definition MakeDate :: "int \<Rightarrow> int \<Rightarrow> int" where
  "MakeDate day time = day * msPerDay + time"

definition TimeClip :: "int \<Rightarrow> int option" where
  "TimeClip t = (if \<bar>t\<bar> > 8640000000000000 then None else Some t)"

definition LocalTime :: "int \<Rightarrow> int \<Rightarrow> int" where
  "LocalTime tza t = t + tza"

definition UTC :: "int \<Rightarrow> int \<Rightarrow> int" where
  "UTC tza t = t - tza"

definition daysInMonth :: "int \<Rightarrow> int \<Rightarrow> int" where
  "daysInMonth y m =
     (if m = 2 then (if DaysInYear y = 366 then 29 else 28)
      else if m = 4 \<or> m = 6 \<or> m = 9 \<or> m = 11 then 30 else 31)"

text \<open>
  \<open>new Date(s)\<close> for a string: the date-only form \<open>YYYY-MM-DD\<close> of the ISO format is read as
  midnight UTC of that day. Every other string, and a day that the month does not have, is
  an invalid date in the model (the source stores its dates in this form; what an engine
  does with other strings is left to it by ECMA-262).
\<close>

definition Date_parse :: "string \<Rightarrow> int option" where
  "Date_parse s =
     (if length s = 10 \<and> s ! 4 = CHR ''-'' \<and> s ! 7 = CHR ''-''
         \<and> list_all isDigit (take 4 s) \<and> list_all isDigit (substring s 5 7)
         \<and> list_all isDigit (substring s 8 10)
      then
        (let y = parseInt (take 4 s); m = parseInt (substring s 5 7);
             d = parseInt (substring s 8 10) in
         if 1 \<le> m \<and> m \<le> 12 \<and> 1 \<le> d \<and> d \<le> daysInMonth y m
         then TimeClip (MakeDate (MakeDay y (m - 1) d) 0) else None)
      else None)"

text \<open>
  \<open>new Date(year, month, date)\<close>: the fields are local time. The source calls it with years
  from 1911 on, so the mapping of the years 0 to 99 to 1900 to 1999 is written out but never
  taken.
\<close>

definition Date_ymd :: "int \<Rightarrow> int \<Rightarrow> int \<Rightarrow> int \<Rightarrow> int option" where
  "Date_ymd tza year month date =
     (let yr = (if 0 \<le> year \<and> year \<le> 99 then 1900 + year else year) in
      TimeClip (UTC tza (MakeDate (MakeDay yr month date) 0)))"

definition getFullYear :: "int \<Rightarrow> int option \<Rightarrow> int option" where
  "getFullYear tza d = map_option (\<lambda>t. YearFromTime (LocalTime tza t)) d"

definition getMonth :: "int \<Rightarrow> int option \<Rightarrow> int option" where
  "getMonth tza d = map_option (\<lambda>t. MonthFromTime (LocalTime tza t)) d"

definition getDate :: "int \<Rightarrow> int option \<Rightarrow> int option" where
  "getDate tza d = map_option (\<lambda>t. DateFromTime (LocalTime tza t)) d"

text \<open>
  \<open>d.setMonth(month)\<close>: the local year, the local day of the month and the local time of day
  are kept, the month is replaced, and the result goes through MakeDay.
\<close>

definition setMonth :: "int \<Rightarrow> int option \<Rightarrow> int \<Rightarrow> int option" where
  "setMonth tza d month =
     (case d of
        None \<Rightarrow> None
      | Some u \<Rightarrow>
          (let t = LocalTime tza u;
               newDate = MakeDate (MakeDay (YearFromTime t) month (DateFromTime t))
                           (TimeWithinDay t)
           in TimeClip (UTC tza newDate)))"

text \<open>
  \<open>d.toISOString()\<close>: the UTC fields as \<open>YYYY-MM-DDTHH:mm:ss.sssZ\<close>, with a sign and six
  digits for a year outside 0 to 9999; a RangeError for an invalid date.
\<close>

definition isoYear :: "int \<Rightarrow> string" where
  "isoYear y =
     (if 0 \<le> y \<and> y \<le> 9999 then padStart 4 CHR ''0'' (natToString (nat y))
      else (if y < 0 then CHR ''-'' else CHR ''+'') # padStart 6 CHR ''0'' (natToString (nat \<bar>y\<bar>)))"

definition pad2 :: "int \<Rightarrow> string" where
  "pad2 n = padStart 2 CHR ''0'' (toString n)"

text \<open>The date part \<open>YYYY-MM-DD\<close> for a year, a month from 1 and a day of the month.\<close>

definition isoDate :: "int \<Rightarrow> int \<Rightarrow> int \<Rightarrow> string" where
  "isoDate y m d = isoYear y @ ''-'' @ pad2 m @ ''-'' @ pad2 d"

definition isoDatePart :: "int \<Rightarrow> string" where
  "isoDatePart t = isoDate (YearFromTime t) (MonthFromTime t + 1) (DateFromTime t)"

definition isoTimePart :: "int \<Rightarrow> string" where
  "isoTimePart t =
     (let w = TimeWithinDay t in
      pad2 (w div 3600000) @ '':'' @ pad2 (w div 60000 mod 60) @ '':'' @ pad2 (w div 1000 mod 60)
        @ ''.'' @ padStart 3 CHR ''0'' (toString (w mod 1000)) @ ''Z'')"

definition toISOString :: "int option \<Rightarrow> error + string" where
  "toISOString d =
     (case d of
        None \<Rightarrow> Inl RangeError
      | Some t \<Rightarrow> Inr (isoDatePart t @ ''T'' @ isoTimePart t))"

text \<open>\<open>s.split('T')[0]\<close>: the part of \<open>s\<close> before its first \<open>T\<close>.\<close>

definition beforeT :: "string \<Rightarrow> string" where
  "beforeT s = takeWhile (\<lambda>c. c \<noteq> CHR ''T'') s"


section \<open>Calendar conversions and the schedule (utils.ts)\<close>

text \<open>\<open>isoToROCInput\<close>: the year minus 1911, unpadded, then month and day on two digits.\<close>

definition isoToROCInput :: "int \<Rightarrow> string \<Rightarrow> string" where
  "isoToROCInput tza isoDateStr =
     (if isoDateStr = [] then []
      else
        (case Date_parse isoDateStr of
           None \<Rightarrow> []
         | Some t \<Rightarrow>
             (let year = YearFromTime (LocalTime tza t) - 1911;
                  month = pad2 (MonthFromTime (LocalTime tza t) + 1);
                  day = pad2 (DateFromTime (LocalTime tza t))
              in toString year @ month @ day)))"

text \<open>\<open>rocInputToISO\<close>: \<open>None\<close> is the source's \<open>null\<close>.\<close>

definition rocInputToISO :: "int \<Rightarrow> string \<Rightarrow> string option" where
  "rocInputToISO tza rocInput =
     (let clean = removeNonDigits rocInput in
      if length clean \<noteq> 6 \<and> length clean \<noteq> 7 then None
      else
        (let yearStr = (if length clean = 7 then substring clean 0 3 else substring clean 0 2);
             monthStr = (if length clean = 7 then substring clean 3 5 else substring clean 2 4);
             dayStr = (if length clean = 7 then substring clean 5 7 else substring clean 4 6);
             year = parseInt yearStr + 1911;
             month = parseInt monthStr;
             day = parseInt dayStr
         in
           if month < 1 \<or> month > 12 then None
           else
             (let date = Date_ymd tza year (month - 1) day in
              if getFullYear tza date \<noteq> Some year
                 \<or> map_option (\<lambda>m. m + 1) (getMonth tza date) \<noteq> Some month
                 \<or> getDate tza date \<noteq> Some day
              then None
              else Some (toString year @ ''-'' @ pad2 month @ ''-'' @ pad2 day))))"

text \<open>
  \<open>date.setMonth(date.getMonth() + months)\<close> on \<open>new Date(startDate)\<close>, shared by
  \<open>calculateEndDate\<close>, \<open>getPeriodDueDate\<close>, \<open>getMonthlyReport\<close> and \<open>handleBulkPay\<close>.
\<close>

definition addMonths :: "int \<Rightarrow> string \<Rightarrow> int \<Rightarrow> int option" where
  "addMonths tza startDate months =
     (let date = Date_parse startDate in
      case getMonth tza date of
        None \<Rightarrow> None
      | Some m \<Rightarrow> setMonth tza date (m + months))"


definition getPeriodDueDate :: "int \<Rightarrow> string \<Rightarrow> int \<Rightarrow> error + string" where
  "getPeriodDueDate tza startDate periodIndex =
     map_sum id beforeT (toISOString (addMonths tza startDate periodIndex))"

section \<open>The data model (types.ts)\<close>

text \<open>
  Amounts, durations and sort orders are integers; the monthly rate is a decimal fraction,
  kept as an exact rational, so the rounding error of the host's floating-point numbers is
  outside the model. An optional field is an \<open>option\<close>. The fields of \<open>Funder\<close> and
  \<open>PaymentRecord\<close> that share a name with a field of \<open>Investment\<close> carry a prefix, and so
  do \<open>id\<close> and \<open>note\<close>.
\<close>

datatype InvestmentStatus = Active | Renewed | Returned | Reinvested | Defaulted

record PaymentRecord =
  isPaid :: bool
  paidDate :: "string option"
  paymentNote :: "string option"

record Funder =
  funderId :: string
  funderName :: string
  funderAmount :: int
  funderTicketNumber :: "string option"

record Investment =
  invId :: string
  source :: string
  funders :: "Funder list option"
  amount :: int
  rate :: rat
  introFeeRate :: rat
  introFeePaid :: "bool option"
  introFeePaidDate :: "string option"
  startDate :: string
  endDate :: string
  duration :: int
  ticketNumber :: "string option"
  invNote :: string
  status :: InvestmentStatus
  paymentHistory :: "int \<rightharpoonup> PaymentRecord"
  order :: "int option"

section \<open>The monthly report (utils.ts)\<close>

text \<open>\<open>Math.round\<close>: the nearest integer, a half rounded up.\<close>

definition Math_round :: "rat \<Rightarrow> int" where
  "Math_round x = \<lfloor>x + 1 / 2\<rfloor>"

definition monthlyInterest :: "Investment \<Rightarrow> int" where
  "monthlyInterest iv = Math_round (of_int (amount iv) * (rate iv / 100))"

record InterestDetail =
  detInvId :: string
  detSource :: string
  detTicketNumber :: "string option"
  detAmount :: int
  detPeriod :: int
  detRate :: rat
  detDueDate :: string
  detIsPaid :: bool
  detPaidDate :: "string option"

record CapitalDetail =
  capSource :: string
  capTicketNumber :: "string option"
  capAmount :: int
  capDate :: string

text \<open>
  \<open>MonthlyReportItem\<close>, without \<open>rocMonth\<close>, a display string that \<open>initReportMonth\<close>
  derives from the key.
\<close>

record MonthlyReportItem =
  monthStr :: string
  newCapital :: int
  returnedCapital :: int
  interestExpected :: int
  interestActual :: int
  interestDetails :: "InterestDetail list"
  capitalInDetails :: "CapitalDetail list"
  capitalOutDetails :: "CapitalDetail list"

text \<open>
  The object \<open>report\<close> is a list of keys with their items, in the order in which the keys
  were added (the order of \<open>Object.values\<close>).
\<close>

type_synonym report = "(string \<times> MonthlyReportItem) list"

text \<open>
  The key of a month, \<open>`${d.getFullYear()}-${(d.getMonth()+1).toString().padStart(2,'0')}`\<close>,
  from the local fields of \<open>d\<close>; an invalid date gives \<open>NaN-NaN\<close>.
\<close>

definition monthKey :: "int \<Rightarrow> int option \<Rightarrow> string" where
  "monthKey tza d =
     (case d of
        None \<Rightarrow> ''NaN-NaN''
      | Some t \<Rightarrow>
          toString (YearFromTime (LocalTime tza t)) @ ''-''
            @ pad2 (MonthFromTime (LocalTime tza t) + 1))"

definition initReportMonth :: "report \<Rightarrow> string \<Rightarrow> report" where
  "initReportMonth report key =
     report @ [(key, \<lparr>monthStr = key, newCapital = 0, returnedCapital = 0,
                      interestExpected = 0, interestActual = 0, interestDetails = [],
                      capitalInDetails = [], capitalOutDetails = []\<rparr>)]"

text \<open>\<open>if(!report[key]) initReportMonth(report, key)\<close>\<close>

definition ensureMonth :: "report \<Rightarrow> string \<Rightarrow> report" where
  "ensureMonth report key =
     (if map_of report key = None then initReportMonth report key else report)"

text \<open>An assignment to fields of \<open>report[key]\<close>.\<close>

definition updateMonth ::
  "report \<Rightarrow> string \<Rightarrow> (MonthlyReportItem \<Rightarrow> MonthlyReportItem) \<Rightarrow> report" where
  "updateMonth report key f = map (\<lambda>(k, v). if k = key then (k, f v) else (k, v)) report"

text \<open>\<open>inv.paymentHistory[i]?.isPaid || false\<close>\<close>

definition periodIsPaid :: "(int \<rightharpoonup> PaymentRecord) \<Rightarrow> int \<Rightarrow> bool" where
  "periodIsPaid h i = (case h i of None \<Rightarrow> False | Some p \<Rightarrow> isPaid p)"

text \<open>
  The body of the interest loop for period \<open>i\<close>. \<open>d.toISOString()\<close> throws a RangeError when
  the due date is invalid.
\<close>

definition interestStep :: "int \<Rightarrow> Investment \<Rightarrow> report \<Rightarrow> int \<Rightarrow> error + report" where
  "interestStep tza iv report i =
     (let d = addMonths tza (startDate iv) i;
          iKey = monthKey tza d;
          r1 = ensureMonth report iKey;
          r2 = updateMonth r1 iKey
                 (\<lambda>v. v\<lparr>interestExpected := interestExpected v + monthlyInterest iv\<rparr>);
          paid = periodIsPaid (paymentHistory iv) i;
          r3 = (if paid
                then updateMonth r2 iKey
                       (\<lambda>v. v\<lparr>interestActual := interestActual v + monthlyInterest iv\<rparr>)
                else r2)
      in case toISOString d of
           Inl e \<Rightarrow> Inl e
         | Inr isoStr \<Rightarrow>
             Inr (updateMonth r3 iKey
                    (\<lambda>v. v\<lparr>interestDetails := interestDetails v @
                       [\<lparr>detInvId = invId iv, detSource = source iv,
                         detTicketNumber = ticketNumber iv, detAmount = monthlyInterest iv,
                         detPeriod = i, detRate = rate iv, detDueDate = beforeT isoStr,
                         detIsPaid = paid,
                         detPaidDate = (case paymentHistory iv i of
                                          None \<Rightarrow> None | Some p \<Rightarrow> paidDate p)\<rparr>]\<rparr>)))"

text \<open>\<open>for(let i = 1; i <= inv.duration; i++)\<close>, over the list of the indices left.\<close>

fun interestLoop :: "int \<Rightarrow> Investment \<Rightarrow> report \<Rightarrow> int list \<Rightarrow> error + report" where
  "interestLoop tza iv report [] = Inr report"
| "interestLoop tza iv report (i # is) =
     (case interestStep tza iv report i of
        Inl e \<Rightarrow> Inl e
      | Inr report' \<Rightarrow> interestLoop tza iv report' is)"

text \<open>The body of \<open>investments.forEach\<close>.\<close>

definition reportInvestment :: "int \<Rightarrow> report \<Rightarrow> Investment \<Rightarrow> error + report" where
  "reportInvestment tza report iv =
     (let startKey = monthKey tza (Date_parse (startDate iv));
          r1 = ensureMonth report startKey;
          r2 = updateMonth r1 startKey
                 (\<lambda>v. v\<lparr>newCapital := newCapital v + amount iv,
                        capitalInDetails := capitalInDetails v @
                          [\<lparr>capSource = source iv, capTicketNumber = ticketNumber iv,
                            capAmount = amount iv, capDate = startDate iv\<rparr>]\<rparr>);
          endKey = monthKey tza (Date_parse (endDate iv));
          r3 = ensureMonth r2 endKey;
          r4 = updateMonth r3 endKey
                 (\<lambda>v. v\<lparr>returnedCapital := returnedCapital v + amount iv,
                        capitalOutDetails := capitalOutDetails v @
                          [\<lparr>capSource = source iv, capTicketNumber = ticketNumber iv,
                            capAmount = amount iv, capDate = endDate iv\<rparr>]\<rparr>)
      in interestLoop tza iv r4 [1..duration iv])"



section \<open>Import and bulk payment (App.tsx)\<close>

text \<open>
  \<open>generateId\<close> draws a random identifier. The model takes the sequence \<open>gen\<close> of the
  identifiers drawn and the number \<open>n\<close> of those already used.
\<close>

definition generateId :: "(nat \<Rightarrow> string) \<Rightarrow> nat \<Rightarrow> string \<times> nat" where
  "generateId gen n = (gen n, Suc n)"

text \<open>\<open>prev.length > 0 ? Math.max(...prev.map(i => i.order || 0)) : 0\<close>\<close>

definition orderOr0 :: "Investment \<Rightarrow> int" where
  "orderOr0 i = (case order i of None \<Rightarrow> 0 | Some k \<Rightarrow> k)"

definition maxOrder :: "Investment list \<Rightarrow> int" where
  "maxOrder prev = (if prev = [] then 0 else Max (set (map orderOr0 prev)))"

datatype strategy = Skip | Overwrite | New

text \<open>\<open>item.funders?.map(f => ({ ...f, id: generateId() }))\<close>\<close>

fun renewFunders :: "(nat \<Rightarrow> string) \<Rightarrow> nat \<Rightarrow> Funder list \<Rightarrow> Funder list \<times> nat" where
  "renewFunders gen n [] = ([], n)"
| "renewFunders gen n (f # fs) =
     (let (i, n1) = generateId gen n;
          (fs', n2) = renewFunders gen n1 fs
      in (f\<lparr>funderId := i\<rparr> # fs', n2))"

text \<open>
  The \<open>map\<close> of the strategy \<open>new\<close>, from position \<open>idx\<close> on: each item takes a new identifier,
  then its funders do, then it takes its order.
\<close>

fun cloneItems ::
  "(nat \<Rightarrow> string) \<Rightarrow> nat \<Rightarrow> int \<Rightarrow> int \<Rightarrow> Investment list \<Rightarrow> Investment list \<times> nat" where
  "cloneItems gen n mx idx [] = ([], n)"
| "cloneItems gen n mx idx (item # items) =
     (let (i, n1) = generateId gen n;
          (fs, n2) = (case funders item of
                        None \<Rightarrow> (None, n1)
                      | Some l \<Rightarrow> (let (l', k) = renewFunders gen n1 l in (Some l', k)));
          (rest, n3) = cloneItems gen n2 mx (idx + 1) items
      in (item\<lparr>invId := i, funders := fs, order := Some (mx + idx + 1)\<rparr> # rest, n3))"

text \<open>\<open>newItems.map((item, idx) => ({ ...item, order: currentMaxOrder + idx + 1 }))\<close>\<close>

fun withOrder :: "int \<Rightarrow> int \<Rightarrow> Investment list \<Rightarrow> Investment list" where
  "withOrder mx idx [] = []"
| "withOrder mx idx (item # items) =
     item\<lparr>order := Some (mx + idx + 1)\<rparr> # withOrder mx (idx + 1) items"

text \<open>
  \<open>new Map(conflicts.map(i => [i.id, i]))\<close>: of two conflicts with one identifier the later
  one is kept.
\<close>

definition conflictMap :: "Investment list \<Rightarrow> string \<rightharpoonup> Investment" where
  "conflictMap conflicts = map_of (rev (map (\<lambda>i. (invId i, i)) conflicts))"

text \<open>
  \<open>handleImportConfirm\<close>: the new value of the collection for the state \<open>prev\<close> and the
  candidates \<open>importCandidates\<close>, with the number of identifiers used afterwards.
\<close>

definition handleImportConfirm ::
  "(nat \<Rightarrow> string) \<Rightarrow> nat \<Rightarrow> strategy \<Rightarrow> Investment list \<Rightarrow> Investment list
     \<Rightarrow> Investment list \<times> nat" where
  "handleImportConfirm gen n strat importCandidates prev =
     (if strat = New then
        (let (newItems, n') = cloneItems gen n (maxOrder prev) 0 importCandidates
         in (prev @ newItems, n'))
      else
        (let existingIds = set (map invId prev);
             conflicts = filter (\<lambda>i. invId i \<in> existingIds) importCandidates;
             newItems = filter (\<lambda>i. invId i \<notin> existingIds) importCandidates;
             result = (if strat = Overwrite
                       then map (\<lambda>item. case conflictMap conflicts (invId item) of
                                          Some c \<Rightarrow> c\<lparr>order := order item\<rparr>
                                        | None \<Rightarrow> item) prev
                       else prev);
             currentMaxOrder = maxOrder result
         in (result @ withOrder currentMaxOrder 0 newItems, n)))"

text \<open>The note of a bulk payment, four characters of three bytes each in UTF-8.\<close>

definition bulkPayNote :: string where
  "bulkPayNote =
     [char_of (0xE4::nat), char_of (0xB8::nat), char_of (0x80::nat),
      char_of (0xE9::nat), char_of (0x8D::nat), char_of (0xB5::nat),
      char_of (0xE5::nat), char_of (0x85::nat), char_of (0xA5::nat),
      char_of (0xE5::nat), char_of (0xB8::nat), char_of (0xB3::nat)]"

text \<open>\<open>a <= b\<close> on two dates compares their time values and is false when one is invalid.\<close>

definition dateLe :: "int option \<Rightarrow> int option \<Rightarrow> bool" where
  "dateLe a b = (case (a, b) of (Some x, Some y) \<Rightarrow> x \<le> y | _ \<Rightarrow> False)"

text \<open>
  \<open>new Date(targetMonthStart.getFullYear(), targetMonthStart.getMonth() + 1, 0)\<close>: day 0 of
  the following month, in local time.
\<close>

definition targetMonthEnd :: "int \<Rightarrow> int option \<Rightarrow> int option" where
  "targetMonthEnd tza targetMonthStart =
     (case (getFullYear tza targetMonthStart, getMonth tza targetMonthStart) of
        (Some y, Some m) \<Rightarrow> Date_ymd tza y (m + 1) 0
      | _ \<Rightarrow> None)"

text \<open>
  The loop of \<open>handleBulkPay\<close> over the periods left: the history and the flag
  \<open>changed\<close> are passed along.
\<close>

fun bulkPayLoop ::
  "int \<Rightarrow> string \<Rightarrow> int option \<Rightarrow> int option \<Rightarrow> string \<Rightarrow> (int \<rightharpoonup> PaymentRecord) \<times> bool
     \<Rightarrow> int list \<Rightarrow> (int \<rightharpoonup> PaymentRecord) \<times> bool" where
  "bulkPayLoop tza today ms me start (h, changed) [] = (h, changed)"
| "bulkPayLoop tza today ms me start (h, changed) (i # is) =
     (let d = addMonths tza start i in
      if dateLe ms d \<and> dateLe d me then
        (if \<not> periodIsPaid h i
         then bulkPayLoop tza today ms me start
                (h(i \<mapsto> \<lparr>isPaid = True, paidDate = Some today,
                          paymentNote = Some bulkPayNote\<rparr>), True) is
         else bulkPayLoop tza today ms me start (h, changed) is)
      else bulkPayLoop tza today ms me start (h, changed) is)"

text \<open>
  \<open>handleBulkPay\<close>: the new value of the collection for the state \<open>prev\<close>; \<open>today\<close> is the
  date of the call, \<open>new Date().toISOString().split('T')[0]\<close>.
\<close>

definition handleBulkPay ::
  "int \<Rightarrow> string \<Rightarrow> string \<Rightarrow> Investment list \<Rightarrow> Investment list" where
  "handleBulkPay tza today monthKeyStr prev =
     (let targetMonthStart = Date_parse (monthKeyStr @ ''-01'');
          targetEnd = targetMonthEnd tza targetMonthStart
      in map (\<lambda>iv.
                let (updatedHistory, changed) =
                      bulkPayLoop tza today targetMonthStart targetEnd (startDate iv)
                        (paymentHistory iv, False) [1..duration iv]
                in if changed then iv\<lparr>paymentHistory := updatedHistory\<rparr> else iv) prev)"

section \<open>The totals of a report\<close>


text \<open>
  The rest of this section serves the proofs. A total is one of four fields; \<open>fieldMap\<close> is
  the total of every month of a report as a map; \<open>bump\<close> adds an amount to the total of a
  month, as \<open>ensureMonth\<close> followed by \<open>updateMonth\<close> does; \<open>contributions\<close> lists what
  one investment adds to the months; and a report is well keyed when its keys are distinct
  and each is the \<open>monthStr\<close> of its item.
\<close>

datatype totalField = NewCapital | ReturnedCapital | InterestExpected | InterestActual

fun fieldOf :: "totalField \<Rightarrow> MonthlyReportItem \<Rightarrow> int" where
  "fieldOf NewCapital v = newCapital v"
| "fieldOf ReturnedCapital v = returnedCapital v"
| "fieldOf InterestExpected v = interestExpected v"
| "fieldOf InterestActual v = interestActual v"

definition fieldMap :: "totalField \<Rightarrow> report \<Rightarrow> (string \<rightharpoonup> int)" where
  "fieldMap fld r = map_of (map (\<lambda>(k, v). (k, fieldOf fld v)) r)"

definition bump :: "string \<times> int \<Rightarrow> (string \<rightharpoonup> int) \<Rightarrow> (string \<rightharpoonup> int)" where
  "bump c m = m(fst c \<mapsto> (case m (fst c) of None \<Rightarrow> snd c | Some b \<Rightarrow> b + snd c))"


definition wellKeyed :: "report \<Rightarrow> bool" where
  "wellKeyed r = (distinct (map fst r) \<and> (\<forall>x\<in>set r. monthStr (snd x) = fst x))"

section \<open>Example data\<close>

text \<open>An investment of two months that starts on the last day of March 2025.\<close>

definition exampleInvestment :: Investment where
  "exampleInvestment =
     \<lparr>invId = ''3b241101-e2bb-4255-8caf-4136c566a962'', source = ''S'', funders = None,
      amount = 500000, rate = 12 / 10,
      introFeeRate = 1 / 2, introFeePaid = None, introFeePaidDate = None,
      startDate = ''2025-03-31'', endDate = ''2025-05-31'', duration = 2,
      ticketNumber = None, invNote = [], status = Active, paymentHistory = Map.empty,
      order = Some 1\<rparr>"


section \<open>Properties of the Date object\<close>

subsection \<open>Years and day numbers\<close>

lemma div_succ: 
  fixes a n :: int assumes "0 < n"
  shows "(a + 1) div n = a div n + (if (a + 1) mod n = 0 then 1 else 0)"
proof (cases "a mod n + 1 = n")
  case True
  have "a = n * (a div n) + a mod n" by simp
  then have "a + 1 = n * (a div n) + n" using True by linarith
  then have a: "a + 1 = n * (a div n + 1) + 0" by (simp add: algebra_simps)
  have "(a + 1) div n = a div n + 1"
    using a assms int_div_pos_eq [of "a + 1" n "a div n + 1" 0] by simp
  moreover have "(a + 1) mod n = 0"
    using a assms int_mod_pos_eq [of "a + 1" n "a div n + 1" 0] by simp
  ultimately show ?thesis by simp
next
  case False
  have r: "0 \<le> a mod n" "a mod n < n" using assms by simp_all
  have "a = n * (a div n) + a mod n" by simp
  then have a: "a + 1 = n * (a div n) + (a mod n + 1)" by linarith
  have lt: "a mod n + 1 < n" using False r by simp
  have "(a + 1) div n = a div n"
    using a assms r lt int_div_pos_eq [of "a + 1" n "a div n" "a mod n + 1"] by simp
  moreover have "(a + 1) mod n = a mod n + 1"
    using a assms r lt int_mod_pos_eq [of "a + 1" n "a div n" "a mod n + 1"] by simp
  ultimately show ?thesis using r by simp
qed

lemma mod_400_100: "(y::int) mod 400 = 0 \<Longrightarrow> y mod 100 = 0" 
proof -
  assume "y mod 400 = 0"
  then have "400 dvd y" by (simp add: mod_eq_0_iff_dvd)
  moreover have "(100::int) dvd 400" by simp
  ultimately have "100 dvd y" by (rule dvd_trans [rotated])
  then show ?thesis by (simp add: mod_eq_0_iff_dvd)
qed

lemma mod_100_4: "(y::int) mod 100 = 0 \<Longrightarrow> y mod 4 = 0" 
proof -
  assume "y mod 100 = 0"
  then have "100 dvd y" by (simp add: mod_eq_0_iff_dvd)
  moreover have "(4::int) dvd 100" by simp
  ultimately have "4 dvd y" by (rule dvd_trans [rotated])
  then show ?thesis by (simp add: mod_eq_0_iff_dvd)
qed

lemma DayFromYear_Suc: "DayFromYear (y + 1) = DayFromYear y + DaysInYear y"
proof -
  have m4: "(y - 1968) mod 4 = y mod 4" by algebra
  have m100: "(y - 1900) mod 100 = y mod 100" by algebra
  have m400: "(y - 1600) mod 400 = y mod 400" by algebra
  have a: "(y - 1968) div 4 = (y - 1969) div 4 + (if y mod 4 = 0 then 1 else 0)"
    using div_succ [of 4 "y - 1969"] m4 by simp
  have b: "(y - 1900) div 100 = (y - 1901) div 100 + (if y mod 100 = 0 then 1 else 0)"
    using div_succ [of 100 "y - 1901"] m100 by simp
  have c: "(y - 1600) div 400 = (y - 1601) div 400 + (if y mod 400 = 0 then 1 else 0)"
    using div_succ [of 400 "y - 1601"] m400 by simp
  have "DayFromYear (y + 1) =
          365 * (y - 1969) + (y - 1968) div 4 - (y - 1900) div 100 + (y - 1600) div 400"
    by (simp add: DayFromYear_def)
  also have "\<dots> = DayFromYear y + DaysInYear y"
    unfolding a b c DayFromYear_def DaysInYear_def
    using mod_400_100 [of y] mod_100_4 [of y] by auto
  finally show ?thesis .
qed

lemma DaysInYear_cases: "DaysInYear y = 365 \<or> DaysInYear y = 366"
  by (simp add: DaysInYear_def)

lemma DayFromYear_grows: "a \<le> b \<Longrightarrow> DayFromYear a + 365 * (b - a) \<le> DayFromYear b"
proof (induction b rule: int_ge_induct)
  case base
  show ?case by simp
next
  case (step i)
  have "DayFromYear (i + 1) = DayFromYear i + DaysInYear i"
    by (rule DayFromYear_Suc)
  with step.IH DaysInYear_cases [of i] show ?case by auto
qed

lemma DayFromYear_less: "a < b \<Longrightarrow> DayFromYear a < DayFromYear b"
  using DayFromYear_grows [of a b] by simp

lemma DayFromYear_less_imp: "DayFromYear a < DayFromYear b \<Longrightarrow> a < b"
  using DayFromYear_grows [of b a] by (cases "a < b") auto

lemma year_estimate_lower: "DayFromYear (1969 + (400 * D) div 146097) \<le> D"
proof -
  define k where "k = (400 * D) div 146097"
  define q4 where "q4 = k div 4"
  define q100 where "q100 = (k + 68) div 100"
  define q400 where "q400 = (k + 368) div 400"
  have k: "146097 * k \<le> 400 * D"
    unfolding k_def by (simp add: algebra_simps)
  have a: "4 * q4 \<le> k" unfolding q4_def by simp
  have b: "k + 68 - 99 \<le> 100 * q100"
    unfolding q100_def
    using mult_div_mod_eq [of 100 "k + 68"] pos_mod_bound [of 100 "k + 68"] by linarith
  have c: "400 * q400 \<le> k + 368" unfolding q400_def by simp
  have "DayFromYear (1969 + k) = 365 * k - 365 + q4 - q100 + q400"
    by (simp add: DayFromYear_def add.commute q4_def q100_def q400_def)
  then show ?thesis
    unfolding k_def [symmetric] using k a b c by linarith
qed

lemma year_estimate_upper: "D < DayFromYear (1972 + (400 * D) div 146097)"
proof -
  define k where "k = (400 * D) div 146097"
  define q4 where "q4 = (k + 3) div 4"
  define q100 where "q100 = (k + 71) div 100"
  define q400 where "q400 = (k + 371) div 400"
  have "400 * D = 146097 * k + (400 * D) mod 146097"
    unfolding k_def by simp
  moreover have "(400 * D) mod 146097 < 146097" by simp
  ultimately have k: "400 * D < 146097 * k + 146097" by linarith
  have a: "k + 3 - 3 \<le> 4 * q4"
    unfolding q4_def
    using mult_div_mod_eq [of 4 "k + 3"] pos_mod_bound [of 4 "k + 3"] by linarith
  have b: "100 * q100 \<le> k + 71" unfolding q100_def by simp
  have c: "k + 371 - 399 \<le> 400 * q400"
    unfolding q400_def
    using mult_div_mod_eq [of 400 "k + 371"] pos_mod_bound [of 400 "k + 371"] by linarith
  have "DayFromYear (1972 + k) = 365 * k + 730 + q4 - q100 + q400"
    by (simp add: DayFromYear_def add.commute q4_def q100_def q400_def)
  then show ?thesis
    unfolding k_def [symmetric] using k a b c by linarith
qed

lemma Day_MakeDate: "0 \<le> r \<Longrightarrow> r < msPerDay \<Longrightarrow> Day (MakeDate D r) = D"
  unfolding Day_def MakeDate_def
  by (rule int_div_pos_eq [of _ _ D r]) (simp_all add: mult.commute)


lemma TimeFromYear_le_MakeDate:
  "0 \<le> r \<Longrightarrow> r < msPerDay \<Longrightarrow> TimeFromYear y \<le> MakeDate D r \<longleftrightarrow> DayFromYear y \<le> D"
  unfolding TimeFromYear_def MakeDate_def msPerDay_def by auto

lemma YearFromTime_MakeDate:
  assumes lo: "DayFromYear y \<le> D" and hi: "D < DayFromYear (y + 1)"
    and r: "0 \<le> r" "r < msPerDay"
  shows "YearFromTime (MakeDate D r) = y"
proof -
  define y0 where "y0 = 1969 + (400 * D) div 146097"
  have "DayFromYear y0 < DayFromYear (y + 1)"
    using year_estimate_lower [of D] hi unfolding y0_def by linarith
  then have 1: "y0 \<le> y"
    using DayFromYear_less_imp [of y0 "y + 1"] by simp
  have "DayFromYear y < DayFromYear (y0 + 3)"
    using year_estimate_upper [of D] lo unfolding y0_def by (simp add: add.commute)
  then have 2: "y \<le> y0 + 2"
    using DayFromYear_less_imp [of y "y0 + 3"] by simp
  have Y: "YearFromTime (MakeDate D r) =
             (if DayFromYear (y0 + 2) \<le> D then y0 + 2
              else if DayFromYear (y0 + 1) \<le> D then y0 + 1 else y0)"
    unfolding YearFromTime_def Let_def Day_MakeDate [OF r] TimeFromYear_le_MakeDate [OF r]
      y0_def ..
  consider "y = y0" | "y = y0 + 1" | "y = y0 + 2"
    using 1 2 by linarith
  then show ?thesis
  proof cases
    case 1
    then have a: "D < DayFromYear (y0 + 1)" using hi by simp
    moreover have "DayFromYear (y0 + 1) < DayFromYear (y0 + 2)"
      by (rule DayFromYear_less) simp
    ultimately show ?thesis using 1 Y by simp
  next
    case 2
    then have "D < DayFromYear (y0 + 2)" "DayFromYear (y0 + 1) \<le> D"
      using hi lo by (simp_all add: add.commute)
    then show ?thesis using 2 Y by simp
  next
    case 3
    then show ?thesis using lo Y by simp
  qed
qed





subsection \<open>Calendar fields of a day number\<close>

lemma month_cases:
  fixes mn :: int
  assumes "0 \<le> mn" "mn \<le> 11"
  obtains "mn = 0" | "mn = 1" | "mn = 2" | "mn = 3" | "mn = 4" | "mn = 5"
    | "mn = 6" | "mn = 7" | "mn = 8" | "mn = 9" | "mn = 10" | "mn = 11"
proof -
  have "mn = 0 \<or> mn = 1 \<or> mn = 2 \<or> mn = 3 \<or> mn = 4 \<or> mn = 5
      \<or> mn = 6 \<or> mn = 7 \<or> mn = 8 \<or> mn = 9 \<or> mn = 10 \<or> mn = 11"
    using assms by presburger
  then show ?thesis using that by blast
qed

lemma monthStart_next:
  "0 \<le> mn \<Longrightarrow> mn \<le> 10 \<Longrightarrow> monthStart y (mn + 1) = monthStart y mn + daysInMonth y (mn + 1)"
  by (rule month_cases [of mn]) (simp_all add: monthStart_def daysInMonth_def)


lemma monthStart_nonneg: "0 \<le> mn \<Longrightarrow> mn \<le> 11 \<Longrightarrow> 0 \<le> monthStart y mn"
  by (rule month_cases [of mn]) (simp_all add: monthStart_def)

lemma monthEnd_in_year:
  "0 \<le> mn \<Longrightarrow> mn \<le> 11 \<Longrightarrow> monthStart y mn + daysInMonth y (mn + 1) \<le> DaysInYear y"
  by (insert DaysInYear_cases [of y], rule month_cases [of mn])
    (auto simp: monthStart_def daysInMonth_def)

lemma fields_of_day:
  assumes mn: "0 \<le> mn" "mn \<le> 11" and d: "1 \<le> d" "d \<le> daysInMonth y (mn + 1)"
    and r: "0 \<le> r" "r < msPerDay"
  shows "YearFromTime (MakeDate (DayFromYear y + monthStart y mn + d - 1) r) = y"
    and "MonthFromTime (MakeDate (DayFromYear y + monthStart y mn + d - 1) r) = mn"
    and "DateFromTime (MakeDate (DayFromYear y + monthStart y mn + d - 1) r) = d"
proof -
  define k where "k = monthStart y mn + d - 1"
  define t where "t = MakeDate (DayFromYear y + k) r"
  have t: "MakeDate (DayFromYear y + monthStart y mn + d - 1) r = t"
    by (simp add: t_def k_def algebra_simps)
  have k: "0 \<le> k" "k < DaysInYear y"
    using monthStart_nonneg [OF mn, of y] monthEnd_in_year [OF mn, of y] d
    by (simp_all add: k_def)
  have Y: "YearFromTime t = y"
    unfolding t_def using k
    by (intro YearFromTime_MakeDate r) (simp_all add: DayFromYear_Suc)
  have W: "DayWithinYear t = k"
    unfolding DayWithinYear_def Y by (simp add: t_def Day_MakeDate [OF r])
  have L: "InLeapYear t = (if DaysInYear y = 366 then 1 else 0)"
    unfolding InLeapYear_def Y ..
  have M: "MonthFromTime t = mn"
    unfolding MonthFromTime_def W L Let_def k_def
    by (insert d DaysInYear_cases [of y], rule month_cases [OF mn])
      (auto simp: monthStart_def daysInMonth_def)
  have "DateFromTime t = d"
    unfolding DateFromTime_def W L M Let_def k_def
    by (insert d DaysInYear_cases [of y], rule month_cases [OF mn])
      (auto simp: monthStart_def daysInMonth_def)
  with Y M show "YearFromTime (MakeDate (DayFromYear y + monthStart y mn + d - 1) r) = y"
    and "MonthFromTime (MakeDate (DayFromYear y + monthStart y mn + d - 1) r) = mn"
    and "DateFromTime (MakeDate (DayFromYear y + monthStart y mn + d - 1) r) = d"
    unfolding t by simp_all
qed

subsection \<open>Dates built from local fields\<close>

lemma DayFromYear_grows_upper: "a \<le> b \<Longrightarrow> DayFromYear b \<le> DayFromYear a + 366 * (b - a)"
proof (induction b rule: int_ge_induct)
  case base
  show ?case by simp
next
  case (step i)
  have "DayFromYear (i + 1) = DayFromYear i + DaysInYear i"
    by (rule DayFromYear_Suc)
  with step.IH DaysInYear_cases [of i] show ?case by auto
qed

lemma DayFromYear_0: "DayFromYear 0 = - 719528"
  by (simp add: DayFromYear_def)

lemma DayFromYear_range:
  assumes "0 \<le> y" "y \<le> 275000"
  shows "- 719528 \<le> DayFromYear y" "DayFromYear y \<le> 99930472"
  using DayFromYear_grows [of 0 y] DayFromYear_grows_upper [of 0 y] assms
  by (simp_all add: DayFromYear_0)

lemma monthStart_range: "0 \<le> monthStart y mn \<and> monthStart y mn \<le> 335"
  by (simp add: monthStart_def)

lemma MakeDay_range:
  assumes "0 \<le> y" "y \<le> 275000" "0 \<le> m" "m \<le> 11" "0 \<le> d" "d \<le> 99"
  shows "- 719529 \<le> MakeDay y m d" "MakeDay y m d \<le> 99930905"
  using DayFromYear_range [OF assms(1,2)] monthStart_range [of y m] assms(3-)
  by (simp_all add: MakeDay_def)

lemma Date_ymd_Some:
  assumes "\<bar>tza\<bar> \<le> msPerDay" "100 \<le> y" "y \<le> 275000" "0 \<le> m" "m \<le> 11" "0 \<le> d" "d \<le> 99"
  shows "Date_ymd tza y m d = Some (MakeDate (MakeDay y m d) 0 - tza)"
proof -
  have "- 719529 \<le> MakeDay y m d" "MakeDay y m d \<le> 99930905"
    using MakeDay_range [of y m d] assms by simp_all
  then have "\<bar>MakeDate (MakeDay y m d) 0 - tza\<bar> \<le> 8640000000000000"
    using assms(1) by (simp add: MakeDate_def msPerDay_def abs_le_iff)
  then show ?thesis
    using assms(2) by (simp add: Date_ymd_def TimeClip_def UTC_def)
qed

lemma Date_ymd_getters:
  assumes "\<bar>tza\<bar> \<le> msPerDay" "100 \<le> y" "y \<le> 275000" "0 \<le> m" "m \<le> 11" "0 \<le> d" "d \<le> 99"
  shows "getFullYear tza (Date_ymd tza y m d) = Some (YearFromTime (MakeDate (MakeDay y m d) 0))"
    and "getMonth tza (Date_ymd tza y m d) = Some (MonthFromTime (MakeDate (MakeDay y m d) 0))"
    and "getDate tza (Date_ymd tza y m d) = Some (DateFromTime (MakeDate (MakeDay y m d) 0))"
  unfolding Date_ymd_Some [OF assms]
  by (simp_all add: getFullYear_def getMonth_def getDate_def LocalTime_def)

subsection \<open>Digit strings\<close>

lemma isDigit_cases:
  assumes "isDigit c"
  obtains "c = CHR ''0''" | "c = CHR ''1''" | "c = CHR ''2''" | "c = CHR ''3''" | "c = CHR ''4''"
    | "c = CHR ''5''" | "c = CHR ''6''" | "c = CHR ''7''" | "c = CHR ''8''" | "c = CHR ''9''"
  using assms unfolding isDigit_def by auto

lemma digitVal_le: "isDigit c \<Longrightarrow> digitVal c \<le> 9"
  by (erule isDigit_cases) (simp_all add: digitVal_def)

lemma foldl_digits_less:
  "list_all isDigit s \<Longrightarrow>
     foldl (\<lambda>acc c. 10 * acc + digitVal c) a s < (a + 1) * 10 ^ length s"
proof (induction s arbitrary: a)
  case Nil
  show ?case by simp
next
  case (Cons c s)
  have c: "digitVal c \<le> 9" using Cons.prems by (simp add: digitVal_le)
  have "foldl (\<lambda>acc c. 10 * acc + digitVal c) (10 * a + digitVal c) s
          < (10 * a + digitVal c + 1) * 10 ^ length s"
    using Cons.prems by (intro Cons.IH) simp
  also have "\<dots> \<le> (10 * a + 10) * 10 ^ length s"
    using c by (intro mult_right_mono) simp_all
  finally show ?case by (simp add: algebra_simps)
qed

lemma parseInt_range: "list_all isDigit s \<Longrightarrow> 0 \<le> parseInt s \<and> parseInt s < 10 ^ length s"
proof -
  assume "list_all isDigit s"
  then have "foldl (\<lambda>acc c. 10 * acc + digitVal c) 0 s < 10 ^ length s"
    using foldl_digits_less [of s 0] by simp
  then have "int (foldl (\<lambda>acc c. 10 * acc + digitVal c) 0 s) < int (10 ^ length s)"
    by (rule iffD2 [OF of_nat_less_iff])
  then show ?thesis by (simp add: parseInt_def)
qed

lemma list_all_substring: "list_all P s \<Longrightarrow> list_all P (substring s a b)"
  unfolding substring_def list_all_iff
  by (meson in_set_dropD in_set_takeD)

lemma length_substring: "b \<le> length s \<Longrightarrow> length (substring s a b) = b - a"
  by (simp add: substring_def)

text \<open>The strict parser does not depend on the time zone.\<close>

lemma rocInputToISO_tza:
  assumes tza: "\<bar>tza\<bar> \<le> msPerDay"
  shows "rocInputToISO tza s = rocInputToISO 0 s"
proof -
  define clean where "clean = removeNonDigits s"
  have digits: "list_all isDigit clean"
    by (simp add: clean_def removeNonDigits_def list_all_iff)
  have 0: "\<bar>0::int\<bar> \<le> msPerDay" by (simp add: msPerDay_def)
  have getters:
    "getFullYear tza (Date_ymd tza (parseInt ys + 1911) (parseInt ms - 1) (parseInt ds))
       = getFullYear 0 (Date_ymd 0 (parseInt ys + 1911) (parseInt ms - 1) (parseInt ds))"
    "getMonth tza (Date_ymd tza (parseInt ys + 1911) (parseInt ms - 1) (parseInt ds))
       = getMonth 0 (Date_ymd 0 (parseInt ys + 1911) (parseInt ms - 1) (parseInt ds))"
    "getDate tza (Date_ymd tza (parseInt ys + 1911) (parseInt ms - 1) (parseInt ds))
       = getDate 0 (Date_ymd 0 (parseInt ys + 1911) (parseInt ms - 1) (parseInt ds))"
    if "list_all isDigit ys" "length ys \<le> 3" "list_all isDigit ds" "length ds = 2"
      "\<not> (parseInt ms < 1 \<or> parseInt ms > 12)" for ys ms ds
  proof -
    have "parseInt ys < 10 ^ length ys" "0 \<le> parseInt ys"
      using parseInt_range [OF that(1)] by simp_all
    moreover have "(10::int) ^ length ys \<le> 10 ^ 3"
      using that(2) by (intro power_increasing) simp_all
    ultimately have y: "100 \<le> parseInt ys + 1911" "parseInt ys + 1911 \<le> 275000"
      by simp_all
    have d: "0 \<le> parseInt ds" "parseInt ds \<le> 99"
      using parseInt_range [OF that(3)] that(4) by simp_all
    have m: "0 \<le> parseInt ms - 1" "parseInt ms - 1 \<le> 11"
      using that(5) by simp_all
    note a = Date_ymd_getters [OF tza y m d]
    note b = Date_ymd_getters [OF 0 y m d]
    show
      "getFullYear tza (Date_ymd tza (parseInt ys + 1911) (parseInt ms - 1) (parseInt ds))
         = getFullYear 0 (Date_ymd 0 (parseInt ys + 1911) (parseInt ms - 1) (parseInt ds))"
      "getMonth tza (Date_ymd tza (parseInt ys + 1911) (parseInt ms - 1) (parseInt ds))
         = getMonth 0 (Date_ymd 0 (parseInt ys + 1911) (parseInt ms - 1) (parseInt ds))"
      "getDate tza (Date_ymd tza (parseInt ys + 1911) (parseInt ms - 1) (parseInt ds))
         = getDate 0 (Date_ymd 0 (parseInt ys + 1911) (parseInt ms - 1) (parseInt ds))"
      by (simp_all only: a b)
  qed
  show ?thesis
  proof (cases "length clean = 7")
    case True
    then show ?thesis
      unfolding rocInputToISO_def Let_def clean_def [symmetric]
      using getters [of "substring clean 0 3" "substring clean 5 7" "substring clean 3 5"]
        digits
      by (simp add: list_all_substring length_substring)
  next
    case False
    show ?thesis
    proof (cases "length clean = 6")
      case True
      then show ?thesis
        unfolding rocInputToISO_def Let_def clean_def [symmetric]
        using getters [of "substring clean 0 2" "substring clean 4 6" "substring clean 2 4"]
          digits
        by (simp add: list_all_substring length_substring)
    next
      case False
      with \<open>length clean \<noteq> 7\<close> show ?thesis
        unfolding rocInputToISO_def Let_def clean_def [symmetric] by simp
    qed
  qed
qed

subsection \<open>Printing and reading numbers\<close>

lemma digit_cases:
  fixes k :: nat
  assumes "k < 10"
  obtains "k = 0" | "k = 1" | "k = 2" | "k = 3" | "k = 4"
    | "k = 5" | "k = 6" | "k = 7" | "k = 8" | "k = 9"
proof -
  have "k = 0 \<or> k = 1 \<or> k = 2 \<or> k = 3 \<or> k = 4 \<or> k = 5 \<or> k = 6 \<or> k = 7 \<or> k = 8 \<or> k = 9"
    using assms by presburger
  then show ?thesis using that by blast
qed

lemma digitVal_digitChar: "k < 10 \<Longrightarrow> digitVal (digitChar k) = k"
  by (erule digit_cases) (simp_all add: digitVal_def digitChar_def)

lemma isDigit_digitChar: "k < 10 \<Longrightarrow> isDigit (digitChar k)"
  by (erule digit_cases) (simp_all add: isDigit_def digitChar_def)

lemma digitChar_0: "digitChar 0 = CHR ''0''"
  by (simp add: digitChar_def)


lemma natToString_1: "n < 10 \<Longrightarrow> natToString n = [digitChar n]"
  by (subst natToString.simps) simp

lemma natToString_2:
  "10 \<le> n \<Longrightarrow> n < 100 \<Longrightarrow> natToString n = [digitChar (n div 10), digitChar (n mod 10)]"
  by (subst natToString.simps) (simp add: natToString_1)

lemma natToString_3:
  "100 \<le> n \<Longrightarrow> n < 1000 \<Longrightarrow>
     natToString n = [digitChar (n div 100), digitChar (n div 10 mod 10), digitChar (n mod 10)]"
  by (subst natToString.simps) (simp add: natToString_2 div_mult2_eq [symmetric])

lemma natToString_4:
  "1000 \<le> n \<Longrightarrow> n < 10000 \<Longrightarrow>
     natToString n = [digitChar (n div 1000), digitChar (n div 100 mod 10),
                      digitChar (n div 10 mod 10), digitChar (n mod 10)]"
  by (subst natToString.simps) (simp add: natToString_3 div_mult2_eq [symmetric])


lemma replicate_3: "replicate 3 c = [c, c, c]"
  by (simp add: numeral_3_eq_3)

lemma replicate_2: "replicate 2 c = [c, c]"
  by (simp add: numeral_2_eq_2)

lemma pad4:
  assumes "n < 10000"
  shows "padStart 4 CHR ''0'' (natToString n)
           = [digitChar (n div 1000), digitChar (n div 100 mod 10),
              digitChar (n div 10 mod 10), digitChar (n mod 10)]"
proof -
  consider "n < 10" | "10 \<le> n" "n < 100" | "100 \<le> n" "n < 1000" | "1000 \<le> n"
    by linarith
  then show ?thesis
  proof cases
    case 1
    then show ?thesis by (simp add: padStart_def natToString_1 digitChar_0 replicate_3)
  next
    case 2
    then show ?thesis by (simp add: padStart_def natToString_2 digitChar_0 replicate_2)
  next
    case 3
    then show ?thesis by (simp add: padStart_def natToString_3 digitChar_0)
  next
    case 4
    then show ?thesis using assms by (simp add: padStart_def natToString_4)
  qed
qed

lemma pad2_digits:
  assumes "0 \<le> n" "n < 100"
  shows "pad2 n = [digitChar (nat n div 10), digitChar (nat n mod 10)]"
proof (cases "n < 10")
  case True
  then show ?thesis
    using assms by (simp add: pad2_def toString_def padStart_def natToString_1 digitChar_0)
next
  case False
  then show ?thesis
    using assms by (simp add: pad2_def toString_def padStart_def natToString_2)
qed

lemma parseInt_2: "a < 10 \<Longrightarrow> b < 10 \<Longrightarrow> parseInt [digitChar a, digitChar b] = int (10 * a + b)"
  by (simp add: parseInt_def digitVal_digitChar)

lemma parseInt_3:
  "a < 10 \<Longrightarrow> b < 10 \<Longrightarrow> c < 10 \<Longrightarrow>
     parseInt [digitChar a, digitChar b, digitChar c] = int (100 * a + 10 * b + c)"
  by (simp add: parseInt_def digitVal_digitChar)

lemma parseInt_4:
  "a < 10 \<Longrightarrow> b < 10 \<Longrightarrow> c < 10 \<Longrightarrow> e < 10 \<Longrightarrow>
     parseInt [digitChar a, digitChar b, digitChar c, digitChar e]
       = int (1000 * a + 100 * b + 10 * c + e)"
  by (simp add: parseInt_def digitVal_digitChar)

lemma digits_3: "100 * (n div 100) + 10 * (n div 10 mod 10) + n mod 10 = (n::nat)"
proof -
  have a: "n = 10 * (n div 10) + n mod 10" by simp
  have "n div 10 = 10 * (n div 10 div 10) + n div 10 mod 10" by simp
  also have "n div 10 div 10 = n div 100" by (simp add: div_mult2_eq [symmetric])
  finally have b: "n div 10 = 10 * (n div 100) + n div 10 mod 10" .
  show ?thesis using a b by linarith
qed

lemma digits_4:
  "1000 * (n div 1000) + 100 * (n div 100 mod 10) + 10 * (n div 10 mod 10) + n mod 10 = (n::nat)"
proof -
  have a: "100 * (n div 100) + 10 * (n div 10 mod 10) + n mod 10 = n" by (rule digits_3)
  have "n div 100 = 10 * (n div 100 div 10) + n div 100 mod 10" by simp
  also have "n div 100 div 10 = n div 1000" by (simp add: div_mult2_eq [symmetric])
  finally have b: "n div 100 = 10 * (n div 1000) + n div 100 mod 10" .
  show ?thesis using a b by linarith
qed

subsection \<open>ISO date strings\<close>

lemma isoDate_chars:
  assumes "0 \<le> y" "y \<le> 9999" "0 \<le> m" "m < 100" "0 \<le> d" "d < 100"
  shows "isoDate y m d =
           [digitChar (nat y div 1000), digitChar (nat y div 100 mod 10),
            digitChar (nat y div 10 mod 10), digitChar (nat y mod 10), CHR ''-'',
            digitChar (nat m div 10), digitChar (nat m mod 10), CHR ''-'',
            digitChar (nat d div 10), digitChar (nat d mod 10)]"
proof -
  have "nat y < 10000" using assms by simp
  then have "isoYear y = [digitChar (nat y div 1000), digitChar (nat y div 100 mod 10),
            digitChar (nat y div 10 mod 10), digitChar (nat y mod 10)]"
    using assms by (simp add: isoYear_def pad4)
  then show ?thesis
    using assms by (simp add: isoDate_def pad2_digits)
qed

lemma TimeClip_MakeDay:
  assumes "0 \<le> y" "y \<le> 275000" "0 \<le> m" "m \<le> 11" "0 \<le> d" "d \<le> 99"
  shows "TimeClip (MakeDate (MakeDay y m d) 0) = Some (MakeDate (MakeDay y m d) 0)"
  using MakeDay_range [OF assms]
  by (simp add: TimeClip_def MakeDate_def msPerDay_def abs_le_iff)

lemma daysInMonth_le: "daysInMonth y m \<le> 31"
  by (simp add: daysInMonth_def)

lemma daysInMonth_ge: "28 \<le> daysInMonth y m"
  by (simp add: daysInMonth_def)

lemma Date_parse_isoDate:
  assumes y: "0 \<le> y" "y \<le> 9999" and m: "1 \<le> m" "m \<le> 12"
    and d: "1 \<le> d" "d \<le> daysInMonth y m"
  shows "Date_parse (isoDate y m d) = Some (MakeDate (MakeDay y (m - 1) d) 0)"
proof -
  define Y M D where "Y = nat y" and "M = nat m" and "D = nat d"
  have d31: "d \<le> 31" using d daysInMonth_le [of y m] by simp
  have Y: "Y < 10000" and M: "M < 100" and D: "D < 100"
    using y m d31 by (simp_all add: Y_def M_def D_def)
  define s where "s = isoDate y m d"
  have s: "s = [digitChar (Y div 1000), digitChar (Y div 100 mod 10),
            digitChar (Y div 10 mod 10), digitChar (Y mod 10), CHR ''-'',
            digitChar (M div 10), digitChar (M mod 10), CHR ''-'',
            digitChar (D div 10), digitChar (D mod 10)]"
    unfolding s_def Y_def M_def D_def using y m d d31 by (intro isoDate_chars) simp_all
  have len: "length s = 10" "s ! 4 = CHR ''-''" "s ! 7 = CHR ''-''"
    by (simp_all add: s)
  have t4: "take 4 s = [digitChar (Y div 1000), digitChar (Y div 100 mod 10),
            digitChar (Y div 10 mod 10), digitChar (Y mod 10)]"
    by (simp add: s)
  have s57: "substring s 5 7 = [digitChar (M div 10), digitChar (M mod 10)]"
    by (simp add: s substring_def)
  have s810: "substring s 8 10 = [digitChar (D div 10), digitChar (D mod 10)]"
    by (simp add: s substring_def)
  have b: "Y div 1000 < 10" "Y div 100 mod 10 < 10" "Y div 10 mod 10 < 10" "Y mod 10 < 10"
    "M div 10 < 10" "M mod 10 < 10" "D div 10 < 10" "D mod 10 < 10"
    using Y M D by simp_all
  have digits: "list_all isDigit (take 4 s)" "list_all isDigit (substring s 5 7)"
    "list_all isDigit (substring s 8 10)"
    unfolding t4 s57 s810 using b by (simp_all add: isDigit_digitChar)
  have py: "parseInt (take 4 s) = y"
    unfolding t4 parseInt_4 [OF b(1-4)] digits_4 using y by (simp add: Y_def)
  have pm: "parseInt (substring s 5 7) = m"
    unfolding s57 parseInt_2 [OF b(5,6)] using m by (simp add: M_def)
  have pd: "parseInt (substring s 8 10) = d"
    unfolding s810 parseInt_2 [OF b(7,8)] using d by (simp add: D_def)
  have clip: "TimeClip (MakeDate (MakeDay y (m - 1) d) 0) = Some (MakeDate (MakeDay y (m - 1) d) 0)"
    using y m d d31 by (intro TimeClip_MakeDay) simp_all
  show ?thesis
    unfolding s_def [symmetric] Date_parse_def Let_def py pm pd clip
    using len digits m d by simp
qed




subsection \<open>Adding months\<close>


lemma MakeDay_month: "0 \<le> mn \<Longrightarrow> mn \<le> 11 \<Longrightarrow> MakeDay y mn d = DayFromYear y + monthStart y mn + d - 1"
  by (simp add: MakeDay_def)

text \<open>
  The fields of the day that \<open>MakeDay\<close> gives for a day of the month up to 31: the day itself
  when the month has it, and otherwise the day carried into the following month.
\<close>

lemma MakeDay_fields:
  fixes y :: int
  assumes mn: "0 \<le> mn" "mn \<le> 11" and d: "1 \<le> d" "d \<le> 31" and r: "0 \<le> r" "r < msPerDay"
  shows "YearFromTime (MakeDate (MakeDay y mn d) r) = y"
    and "MonthFromTime (MakeDate (MakeDay y mn d) r)
           = (if d \<le> daysInMonth y (mn + 1) then mn else mn + 1)"
    and "DateFromTime (MakeDate (MakeDay y mn d) r)
           = (if d \<le> daysInMonth y (mn + 1) then d else d - daysInMonth y (mn + 1))"
proof -
  define t where "t = MakeDate (MakeDay y mn d) r"
  have t: "t = MakeDate (DayFromYear y + monthStart y mn + d - 1) r"
    by (simp add: t_def MakeDay_month [OF mn])
  have "YearFromTime t = y
    \<and> MonthFromTime t = (if d \<le> daysInMonth y (mn + 1) then mn else mn + 1)
    \<and> DateFromTime t = (if d \<le> daysInMonth y (mn + 1) then d else d - daysInMonth y (mn + 1))"
  proof (cases "d \<le> daysInMonth y (mn + 1)")
    case True
    note f = fields_of_day [OF mn d(1) True r]
    show ?thesis unfolding t using True f by simp
  next
    case False
    then have "daysInMonth y (mn + 1) \<noteq> 31" using d by auto
    then have "mn \<noteq> 11" by (auto simp: daysInMonth_def)
    then have mn': "0 \<le> mn + 1" "mn + 1 \<le> 11" "mn \<le> 10" using mn by simp_all
    define e where "e = d - daysInMonth y (mn + 1)"
    have e: "1 \<le> e" "e \<le> daysInMonth y (mn + 1 + 1)"
      using False d daysInMonth_ge [of y "mn + 1"] daysInMonth_ge [of y "mn + 1 + 1"]
      by (simp_all add: e_def)
    have t': "t = MakeDate (DayFromYear y + monthStart y (mn + 1) + e - 1) r"
      unfolding t e_def monthStart_next [OF mn(1) mn'(3)] by (simp add: algebra_simps)
    note f = fields_of_day [OF mn'(1,2) e r]
    show ?thesis unfolding t' using False f by (simp add: e_def)
  qed
  then show "YearFromTime (MakeDate (MakeDay y mn d) r) = y"
    and "MonthFromTime (MakeDate (MakeDay y mn d) r)
           = (if d \<le> daysInMonth y (mn + 1) then mn else mn + 1)"
    and "DateFromTime (MakeDate (MakeDay y mn d) r)
           = (if d \<le> daysInMonth y (mn + 1) then d else d - daysInMonth y (mn + 1))"
    unfolding t_def by simp_all
qed

lemma MakeDate_add: "MakeDate D 0 + r = MakeDate D r"
  by (simp add: MakeDate_def)




lemma isoDate_not_empty: "isoDate y m d \<noteq> []"
  by (simp add: isoDate_def)




subsection \<open>The alternate calendar\<close>

lemma isoToROCInput_isoDate:
  assumes tz: "0 \<le> tza" "tza < msPerDay"
    and y: "0 \<le> y" "y \<le> 9999" and m: "1 \<le> m" "m \<le> 12"
    and d: "1 \<le> d" "d \<le> daysInMonth y m"
  shows "isoToROCInput tza (isoDate y m d) = toString (y - 1911) @ pad2 m @ pad2 d"
proof -
  have m': "0 \<le> m - 1" "m - 1 \<le> 11" using m by simp_all
  have d31: "d \<le> 31" using d daysInMonth_le [of y m] by simp
  have l: "LocalTime tza (MakeDate (MakeDay y (m - 1) d) 0) = MakeDate (MakeDay y (m - 1) d) tza"
    by (simp add: LocalTime_def MakeDate_add)
  note f = MakeDay_fields [OF m' d(1) d31 tz, of y]
  show ?thesis
    unfolding isoToROCInput_def Let_def Date_parse_isoDate [OF y m d]
    using d by (simp add: isoDate_not_empty l f)
qed

lemma Date_ymd_valid:
  assumes tz: "\<bar>tza\<bar> \<le> msPerDay"
    and y: "100 \<le> y" "y \<le> 9999" and m: "1 \<le> m" "m \<le> 12"
    and d: "1 \<le> d" "d \<le> daysInMonth y m"
  shows "getFullYear tza (Date_ymd tza y (m - 1) d) = Some y"
    and "getMonth tza (Date_ymd tza y (m - 1) d) = Some (m - 1)"
    and "getDate tza (Date_ymd tza y (m - 1) d) = Some d"
proof -
  have m': "0 \<le> m - 1" "m - 1 \<le> 11" using m by simp_all
  have d31: "d \<le> 31" using d daysInMonth_le [of y m] by simp
  have y': "y \<le> 275000" using y by simp
  have d': "0 \<le> d" "d \<le> 99" using d d31 by simp_all
  have 0: "(0::int) \<le> 0" "0 < msPerDay" by (simp_all add: msPerDay_def)
  note g = Date_ymd_getters [OF tz y(1) y' m' d']
  note f = MakeDay_fields [OF m' d(1) d31 0, of y]
  show "getFullYear tza (Date_ymd tza y (m - 1) d) = Some y"
    and "getMonth tza (Date_ymd tza y (m - 1) d) = Some (m - 1)"
    and "getDate tza (Date_ymd tza y (m - 1) d) = Some d"
    unfolding g f using d by simp_all
qed

lemma isoYear_4: "1000 \<le> y \<Longrightarrow> y \<le> 9999 \<Longrightarrow> isoYear y = toString y"
  by (simp add: isoYear_def toString_def padStart_def natToString_4)

lemma rocInputToISO_roundtrip:
  assumes tz: "\<bar>tza\<bar> \<le> msPerDay"
    and y: "1921 \<le> y" "y \<le> 2910" and m: "1 \<le> m" "m \<le> 12"
    and d: "1 \<le> d" "d \<le> daysInMonth y m"
  shows "rocInputToISO tza (toString (y - 1911) @ pad2 m @ pad2 d) = Some (isoDate y m d)"
proof -
  define E M D where "E = nat (y - 1911)" and "M = nat m" and "D = nat d"
  have d31: "d \<le> 31" using d daysInMonth_le [of y m] by simp
  have E: "10 \<le> E" "E < 1000" and M: "M < 100" and D: "D < 100"
    using y m d31 by (simp_all add: E_def M_def D_def)
  have pm: "pad2 m = [digitChar (M div 10), digitChar (M mod 10)]"
    unfolding M_def using m by (intro pad2_digits) simp_all
  have pd: "pad2 d = [digitChar (D div 10), digitChar (D mod 10)]"
    unfolding D_def using d d31 by (intro pad2_digits) simp_all
  have b: "M div 10 < 10" "M mod 10 < 10" "D div 10 < 10" "D mod 10 < 10"
    using M D by simp_all
  have iM: "int (10 * (M div 10) + M mod 10) = m" using m by (simp add: M_def)
  have iD: "int (10 * (D div 10) + D mod 10) = d" using d by (simp add: D_def)
  have y': "100 \<le> y" "y \<le> 9999" using y by simp_all
  note g = Date_ymd_valid [OF tz y' m d]
  have out: "toString y @ CHR ''-'' # pad2 m @ CHR ''-'' # pad2 d = isoDate y m d"
    using y by (simp add: isoDate_def isoYear_4)
  define s where "s = toString (y - 1911) @ pad2 m @ pad2 d"
  show ?thesis
  proof (cases "E < 100")
    case True
    have e: "E div 10 < 10" "E mod 10 < 10" using True by simp_all
    have iE: "int (10 * (E div 10) + E mod 10) + 1911 = y" using y by (simp add: E_def)
    have s: "s = [digitChar (E div 10), digitChar (E mod 10),
                  digitChar (M div 10), digitChar (M mod 10),
                  digitChar (D div 10), digitChar (D mod 10)]"
      unfolding s_def pm pd using y E True
      by (simp add: toString_def natToString_2 E_def)
    have c: "removeNonDigits s = s"
      unfolding removeNonDigits_def s using e b by (simp add: isDigit_digitChar)
    have len: "length s = 6" by (simp add: s)
    have sub: "substring s 0 2 = [digitChar (E div 10), digitChar (E mod 10)]"
      "substring s 2 4 = [digitChar (M div 10), digitChar (M mod 10)]"
      "substring s 4 6 = [digitChar (D div 10), digitChar (D mod 10)]"
      by (simp_all add: s substring_def)
    have p: "parseInt (substring s 0 2) + 1911 = y" "parseInt (substring s 2 4) = m"
      "parseInt (substring s 4 6) = d"
      unfolding sub parseInt_2 [OF e] parseInt_2 [OF b(1,2)] parseInt_2 [OF b(3,4)]
      using iE iM iD by simp_all
    show ?thesis
      unfolding s_def [symmetric] rocInputToISO_def Let_def c len
      using m by (simp add: p g out)
  next
    case False
    then have E3: "100 \<le> E" by simp
    have e: "E div 100 < 10" "E div 10 mod 10 < 10" "E mod 10 < 10" using E by simp_all
    have iE: "int (100 * (E div 100) + 10 * (E div 10 mod 10) + E mod 10) + 1911 = y"
      unfolding digits_3 using y by (simp add: E_def)
    have s: "s = [digitChar (E div 100), digitChar (E div 10 mod 10), digitChar (E mod 10),
                  digitChar (M div 10), digitChar (M mod 10),
                  digitChar (D div 10), digitChar (D mod 10)]"
      unfolding s_def pm pd using y E E3
      by (simp add: toString_def natToString_3 E_def)
    have c: "removeNonDigits s = s"
      unfolding removeNonDigits_def s using e b by (simp add: isDigit_digitChar)
    have len: "length s = 7" by (simp add: s)
    have sub: "substring s 0 3 = [digitChar (E div 100), digitChar (E div 10 mod 10), digitChar (E mod 10)]"
      "substring s 3 5 = [digitChar (M div 10), digitChar (M mod 10)]"
      "substring s 5 7 = [digitChar (D div 10), digitChar (D mod 10)]"
      by (simp_all add: s substring_def)
    have p: "parseInt (substring s 0 3) + 1911 = y" "parseInt (substring s 3 5) = m"
      "parseInt (substring s 5 7) = d"
      unfolding sub parseInt_3 [OF e] parseInt_2 [OF b(1,2)] parseInt_2 [OF b(3,4)]
      using iE iM iD by simp_all
    show ?thesis
      unfolding s_def [symmetric] rocInputToISO_def Let_def c len
      using m by (simp add: p g out)
  qed
qed

subsection \<open>Due dates stay within the range of dates\<close>










section \<open>Properties of the monthly report\<close>

subsection \<open>The keys of a report\<close>

lemma map_fst_updateMonth: "map fst (updateMonth r k g) = map fst r"
  by (induction r) (auto simp: updateMonth_def)


lemma map_fst_ensureMonth:
  "map fst (ensureMonth r k) = (if k \<in> set (map fst r) then map fst r else map fst r @ [k])"
  by (auto simp: ensureMonth_def initReportMonth_def map_of_eq_None_iff)


lemma key_ensureMonth: "k \<in> set (map fst (ensureMonth r k))"
  by (simp add: map_fst_ensureMonth)

subsection \<open>The sum of a field over a report\<close>




lemma toISOString_Some: "\<exists>s. toISOString (Some t) = Inr s"
  by (simp add: toISOString_def)






subsection \<open>The totals of a month\<close>

lemma fieldMap_dom: "dom (fieldMap fld r) = set (map fst r)"
  unfolding fieldMap_def dom_map_of_conv_image_fst by force

lemma fieldMap_ensureMonth:
  "fieldMap fld (ensureMonth r k)
     = (if k \<in> set (map fst r) then fieldMap fld r else (fieldMap fld r)(k \<mapsto> 0))"
proof (cases "k \<in> set (map fst r)")
  case True
  then show ?thesis by (auto simp: ensureMonth_def map_of_eq_None_iff)
next
  case False
  then have n: "map_of r k = None" by (simp add: map_of_eq_None_iff)
  have "fieldMap fld r k = None" using False fieldMap_dom [of fld r] by auto
  then have "fieldMap fld (r @ [(k, v)]) = (fieldMap fld r)(k \<mapsto> fieldOf fld v)" for v
    unfolding fieldMap_def by (auto simp: map_add_def fun_eq_iff split: option.splits)
  then show ?thesis
    using False n by (cases fld) (simp_all add: ensureMonth_def initReportMonth_def)
qed

lemma fieldMap_updateMonth:
  assumes "\<And>v. fieldOf fld (g v) = fieldOf fld v + a"
  shows "fieldMap fld (updateMonth r k g)
           = (case fieldMap fld r k of None \<Rightarrow> fieldMap fld r
              | Some b \<Rightarrow> (fieldMap fld r)(k \<mapsto> b + a))"
proof (induction r)
  case Nil
  show ?case by (simp add: fieldMap_def updateMonth_def)
next
  case (Cons x r)
  obtain k' v where x: "x = (k', v)" by (cases x)
  have u: "updateMonth ((k', v) # r) k g
              = (if k' = k then (k', g v) else (k', v)) # updateMonth r k g"
    by (simp add: updateMonth_def)
  have c: "fieldMap fld ((j, w) # q) = (fieldMap fld q)(j \<mapsto> fieldOf fld w)" for j w q
    by (simp add: fieldMap_def)
  show ?case
    unfolding x u using Cons.IH assms
    by (auto simp: c fun_eq_iff split: option.splits)
qed

lemma bump_present: "m k = Some b \<Longrightarrow> bump (k, a) m = m(k \<mapsto> b + a)"
  by (simp add: bump_def)

lemma bump_absent: "m k = None \<Longrightarrow> bump (k, a) m = m(k \<mapsto> a)"
  by (simp add: bump_def)

lemma bump_bump: "bump (k, a) (bump (k, b) m) = bump (k, b + a) m"
  by (auto simp: bump_def fun_eq_iff split: option.splits)


lemma fieldMap_first_update:
  assumes "\<And>v. fieldOf fld (g v) = fieldOf fld v + a"
  shows "fieldMap fld (updateMonth (ensureMonth r k) k g) = bump (k, a) (fieldMap fld r)"
proof (cases "k \<in> set (map fst r)")
  case True
  then obtain b where b: "fieldMap fld r k = Some b"
    using fieldMap_dom [of fld r] by auto
  show ?thesis
    unfolding fieldMap_updateMonth [of fld g a, OF assms] fieldMap_ensureMonth
    using True b by (simp add: bump_present)
next
  case False
  then have b: "fieldMap fld r k = None"
    using fieldMap_dom [of fld r] by auto
  show ?thesis
    unfolding fieldMap_updateMonth [of fld g a, OF assms] fieldMap_ensureMonth
    using False b by (simp add: bump_absent)
qed

lemma fieldMap_next_update:
  assumes "\<And>v. fieldOf fld (g v) = fieldOf fld v + a" "k \<in> set (map fst r)"
  shows "fieldMap fld (updateMonth r k g) = bump (k, a) (fieldMap fld r)"
proof -
  obtain b where b: "fieldMap fld r k = Some b"
    using assms(2) fieldMap_dom [of fld r] by auto
  show ?thesis
    unfolding fieldMap_updateMonth [of fld g a, OF assms(1)]
    using b by (simp add: bump_present)
qed

subsection \<open>Keys stay distinct and match their items\<close>

lemma wellKeyed_ensureMonth: "wellKeyed r \<Longrightarrow> wellKeyed (ensureMonth r k)"
  by (auto simp: wellKeyed_def ensureMonth_def initReportMonth_def map_of_eq_None_iff)

lemma wellKeyed_updateMonth:
  assumes "wellKeyed r" "\<And>v. monthStr (g v) = monthStr v"
  shows "wellKeyed (updateMonth r k g)"
  using assms unfolding wellKeyed_def map_fst_updateMonth
  by (auto simp: updateMonth_def)

subsection \<open>One investment in the report\<close>

lemma interestStep_None:
  "addMonths tza (startDate iv) i = None \<Longrightarrow> interestStep tza iv r i = Inl RangeError"
  by (simp add: interestStep_def toISOString_def)

lemma interestStep_field:
  assumes "interestStep tza iv r i = Inr r'"
  shows "addMonths tza (startDate iv) i \<noteq> None"
    and "fieldMap fld r'
           = bump (monthKey tza (addMonths tza (startDate iv) i),
                   if fld = InterestExpected then monthlyInterest iv
                   else if fld = InterestActual \<and> periodIsPaid (paymentHistory iv) i
                   then monthlyInterest iv else 0) (fieldMap fld r)"
    and "wellKeyed r \<Longrightarrow> wellKeyed r'"
proof -
  show a: "addMonths tza (startDate iv) i \<noteq> None"
    using assms interestStep_None [of tza iv i r] by auto
  then obtain t where t: "addMonths tza (startDate iv) i = Some t" by auto
  obtain s where s: "toISOString (Some t) = Inr s" using toISOString_Some by blast
  define k where "k = monthKey tza (Some t)"
  define r1 where "r1 = ensureMonth r k"
  define g2 :: "MonthlyReportItem \<Rightarrow> MonthlyReportItem"
    where "g2 = (\<lambda>v. v\<lparr>interestExpected := interestExpected v + monthlyInterest iv\<rparr>)"
  define r2 where "r2 = updateMonth r1 k g2"
  define g3 :: "MonthlyReportItem \<Rightarrow> MonthlyReportItem"
    where "g3 = (\<lambda>v. v\<lparr>interestActual := interestActual v + monthlyInterest iv\<rparr>)"
  define r3 where "r3 = (if periodIsPaid (paymentHistory iv) i then updateMonth r2 k g3 else r2)"
  define g4 :: "MonthlyReportItem \<Rightarrow> MonthlyReportItem"
    where "g4 = (\<lambda>v. v\<lparr>interestDetails := interestDetails v @
                       [\<lparr>detInvId = invId iv, detSource = source iv,
                         detTicketNumber = ticketNumber iv, detAmount = monthlyInterest iv,
                         detPeriod = i, detRate = rate iv, detDueDate = beforeT s,
                         detIsPaid = periodIsPaid (paymentHistory iv) i,
                         detPaidDate = (case paymentHistory iv i of
                                          None \<Rightarrow> None | Some p \<Rightarrow> paidDate p)\<rparr>]\<rparr>)"
  have "interestStep tza iv r i = Inr (updateMonth r3 k g4)"
    unfolding interestStep_def Let_def t s r3_def r2_def r1_def k_def g2_def g3_def g4_def
    by simp
  then have r': "r' = updateMonth r3 k g4" using assms by simp
  define a2 where "a2 = (if fld = InterestExpected then monthlyInterest iv else 0)"
  define a3 where "a3 = (if fld = InterestActual then monthlyInterest iv else 0)"
  have k2: "k \<in> set (map fst r2)"
    unfolding r2_def r1_def map_fst_updateMonth by (rule key_ensureMonth)
  have f2: "fieldMap fld r2 = bump (k, a2) (fieldMap fld r)"
    unfolding r2_def r1_def
    by (rule fieldMap_first_update) (cases fld; simp add: g2_def a2_def)
  have f3': "fieldMap fld (updateMonth r2 k g3) = bump (k, a3) (fieldMap fld r2)"
    using k2 by (intro fieldMap_next_update) (cases fld; simp add: g3_def a3_def)+
  define b3 where "b3 = (if periodIsPaid (paymentHistory iv) i then a3 else 0)"
  have f3: "fieldMap fld r3 = bump (k, b3) (fieldMap fld r2)"
  proof (cases "periodIsPaid (paymentHistory iv) i")
    case True
    then show ?thesis unfolding r3_def b3_def using f3' by simp
  next
    case False
    obtain b where "fieldMap fld r2 k = Some b"
      using k2 fieldMap_dom [of fld r2] by auto
    then have "bump (k, 0) (fieldMap fld r2) = fieldMap fld r2"
      by (simp add: bump_present map_upd_triv)
    then show ?thesis unfolding r3_def b3_def using False by simp
  qed
  have "map fst r3 = map fst r2"
    unfolding r3_def by (simp add: map_fst_updateMonth)
  then have k3: "k \<in> set (map fst r3)"
    using k2 by (simp only:)
  have f4: "fieldMap fld r' = bump (k, 0) (fieldMap fld r3)"
    unfolding r' using k3 by (intro fieldMap_next_update) (cases fld; simp add: g4_def)+
  have amt: "a2 + b3 + 0 = (if fld = InterestExpected then monthlyInterest iv
                   else if fld = InterestActual \<and> periodIsPaid (paymentHistory iv) i
                   then monthlyInterest iv else 0)"
    by (simp add: a2_def a3_def b3_def)
  have "fieldMap fld r' = bump (k, a2 + b3 + 0) (fieldMap fld r)"
    unfolding f4 f3 f2 bump_bump ..
  then show "fieldMap fld r'
           = bump (monthKey tza (addMonths tza (startDate iv) i),
                   if fld = InterestExpected then monthlyInterest iv
                   else if fld = InterestActual \<and> periodIsPaid (paymentHistory iv) i
                   then monthlyInterest iv else 0) (fieldMap fld r)"
    unfolding amt t k_def .
  assume w: "wellKeyed r"
  have "wellKeyed r2"
    unfolding r2_def r1_def using w
    by (intro wellKeyed_updateMonth wellKeyed_ensureMonth) (simp_all add: g2_def)
  then have "wellKeyed r3"
    unfolding r3_def by (auto intro!: wellKeyed_updateMonth simp: g3_def)
  then show "wellKeyed r'"
    unfolding r' by (intro wellKeyed_updateMonth) (simp_all add: g4_def)
qed

lemma interestLoop_None:
  "\<exists>i\<in>set js. addMonths tza (startDate iv) i = None \<Longrightarrow> interestLoop tza iv r js = Inl RangeError"
proof (induction js arbitrary: r)
  case Nil
  then show ?case by simp
next
  case (Cons j js)
  show ?case
  proof (cases "interestStep tza iv r j")
    case (Inl e)
    then show ?thesis by (cases e) simp
  next
    case (Inr r1)
    then have "addMonths tza (startDate iv) j \<noteq> None" by (rule interestStep_field)
    then have "\<exists>i\<in>set js. addMonths tza (startDate iv) i = None" using Cons.prems by auto
    then show ?thesis using Inr Cons.IH by simp
  qed
qed



lemma reportInvestment_None:
  assumes "\<exists>i\<in>{1..duration iv}. addMonths tza (startDate iv) i = None"
  shows "reportInvestment tza r iv = Inl RangeError"
  unfolding reportInvestment_def Let_def
  using assms by (intro interestLoop_None) simp




subsection \<open>The order of the investments\<close>




subsection \<open>Sorting the months\<close>








section \<open>Properties of the import\<close>

lemma orderOr0_le_maxOrder: "e \<in> set prev \<Longrightarrow> orderOr0 e \<le> maxOrder prev"
  by (auto simp: maxOrder_def)

lemma length_withOrder: "length (withOrder mx idx xs) = length xs"
  by (induction xs arbitrary: idx) simp_all

lemma withOrder_nth:
  "k < length xs \<Longrightarrow> withOrder mx idx xs ! k = (xs ! k)\<lparr>order := Some (mx + idx + int k + 1)\<rparr>"
proof (induction xs arbitrary: idx k)
  case Nil
  then show ?case by simp
next
  case (Cons x xs)
  show ?case
  proof (cases k)
    case 0
    then show ?thesis by simp
  next
    case (Suc j)
    then have "j < length xs" using Cons.prems by simp
    from Cons.IH [OF this, of "idx + 1"] Suc show ?thesis
      by (simp add: algebra_simps)
  qed
qed



section \<open>The claims\<close>




text \<open>
  C2 (as amended). In a time zone from UTC to less than a day east of it, a valid date of
  the years 1921 to 2910 (era years of two or three digits) is returned by \<open>rocInputToISO\<close>
  from its \<open>isoToROCInput\<close> string.
\<close>

theorem roc_roundtrip:
  assumes "0 \<le> tza" "tza < msPerDay"
    and "1921 \<le> y" "y \<le> 2910" "1 \<le> m" "m \<le> 12" "1 \<le> d" "d \<le> daysInMonth y m"
  shows "rocInputToISO tza (isoToROCInput tza (isoDate y m d)) = Some (isoDate y m d)"
proof -
  have y: "0 \<le> y" "y \<le> 9999" using assms(3,4) by simp_all
  have tz: "\<bar>tza\<bar> \<le> msPerDay" using assms(1,2) by simp
  show ?thesis
    unfolding isoToROCInput_isoDate [OF assms(1,2) y assms(5-8)]
    by (rule rocInputToISO_roundtrip [OF tz assms(3-8)])
qed

theorem roc_roundtrip_witness:
  "(0::int) \<le> 28800000 \<and> 28800000 < msPerDay \<and> 15 \<le> daysInMonth 2025 7
   \<and> isoToROCInput 28800000 ''2025-07-15'' = ''1140715''
   \<and> rocInputToISO 28800000 (isoToROCInput 28800000 ''2025-07-15'') = Some ''2025-07-15''"
proof -
  have h: "(0::int) \<le> 28800000" "28800000 < msPerDay" "(1921::int) \<le> 2025" "(2025::int) \<le> 2910"
    "(1::int) \<le> 7" "(7::int) \<le> 12" "(1::int) \<le> 15" "15 \<le> daysInMonth 2025 7"
    by (simp_all add: msPerDay_def daysInMonth_def)
  have i: "isoDate 2025 7 15 = ''2025-07-15''" by code_simp
  have r: "isoToROCInput 28800000 ''2025-07-15'' = ''1140715''" by code_simp
  show ?thesis
    using h(1,2,8) r roc_roundtrip [OF h] unfolding i by simp
qed

text \<open>
  C2 as stated fails for the years 1912 to 1920 and from 2911 on: the era year is written
  without padding, so the string has five or eight digits, and the strict parser rejects it.
\<close>

theorem roc_roundtrip_counterexample:
  "isoToROCInput 28800000 ''1912-01-01'' = ''10101''
   \<and> rocInputToISO 28800000 (isoToROCInput 28800000 ''1912-01-01'') = None
   \<and> rocInputToISO 28800000 (isoToROCInput 28800000 ''2911-01-01'') = None"
  by code_simp




text \<open>
  C4 (as amended). In a time zone within a day of UTC, the strict parser maps the 7-digit
  input 1140715 to 2025-07-15 and the 6-digit input 990101 to 2010-01-01: the era year plus
  1911, so 99 + 1911 = 2010.
\<close>

theorem rocInputToISO_examples:
  assumes "\<bar>tza\<bar> \<le> msPerDay"
  shows "rocInputToISO tza ''1140715'' = Some ''2025-07-15''
       \<and> rocInputToISO tza ''990101'' = Some ''2010-01-01''"
proof -
  have "rocInputToISO 0 ''1140715'' = Some ''2025-07-15''" by code_simp
  moreover have "rocInputToISO 0 ''990101'' = Some ''2010-01-01''" by code_simp
  ultimately show ?thesis by (simp add: rocInputToISO_tza [OF assms])
qed

theorem rocInputToISO_examples_witness:
  "\<bar>28800000\<bar> \<le> msPerDay
   \<and> rocInputToISO 28800000 ''1140715'' = Some ''2025-07-15''
   \<and> rocInputToISO 28800000 ''990101'' = Some ''2010-01-01''"
proof -
  have h: "\<bar>28800000\<bar> \<le> msPerDay" by (simp add: msPerDay_def)
  show ?thesis using h rocInputToISO_examples [OF h] by simp
qed

text \<open>
  C4 as stated fails: in Taipei (UTC+8) the input 990101 is not parsed to 1910-01-01.
\<close>

theorem rocInputToISO_990101_counterexample:
  "rocInputToISO 28800000 ''990101'' \<noteq> Some ''1910-01-01''"
  by code_simp

text \<open>
  C10. The strict parser gives for every input the result it gives for the digits of the
  input alone; so 114/07/15, whose digits are a valid 7-digit date, is accepted.
\<close>

theorem rocInputToISO_digits_only:
  "rocInputToISO tza s = rocInputToISO tza (removeNonDigits s)
   \<and> (\<bar>tza\<bar> \<le> msPerDay \<longrightarrow> rocInputToISO tza ''114/07/15'' = Some ''2025-07-15'')"
proof -
  have "removeNonDigits (removeNonDigits s) = removeNonDigits s"
    by (simp add: removeNonDigits_def)
  then have "rocInputToISO tza s = rocInputToISO tza (removeNonDigits s)"
    by (simp add: rocInputToISO_def)
  moreover have "rocInputToISO 0 ''114/07/15'' = Some ''2025-07-15''" by code_simp
  ultimately show ?thesis by (simp add: rocInputToISO_tza)
qed

theorem rocInputToISO_digits_only_witness:
  "rocInputToISO 28800000 ''114/07/15'' = rocInputToISO 28800000 (removeNonDigits ''114/07/15'')
   \<and> \<bar>28800000\<bar> \<le> msPerDay
   \<and> rocInputToISO 28800000 ''114/07/15'' = Some ''2025-07-15''"
proof -
  have h: "\<bar>28800000\<bar> \<le> msPerDay" by (simp add: msPerDay_def)
  show ?thesis using h rocInputToISO_digits_only [of 28800000 "''114/07/15''"] by blast
qed





text \<open>
  C7. Merging with the strategy \<open>skip\<close> gives the existing collection, unchanged and in
  place, followed by the incoming records whose identifier matches no existing one; so the
  size is the sum of the two. The appended record at position \<open>k\<close> is the incoming record
  with the order \<open>maxOrder prev + 1 + k\<close>, where \<open>maxOrder\<close> is the largest existing order (a
  missing order counts as 0, and the maximum of an empty collection is 0). These orders
  increase strictly and differ from every existing order.
\<close>

theorem handleImportConfirm_skip:
  "let existing = set (map invId prev);
       fresh = filter (\<lambda>i. invId i \<notin> existing) incoming;
       result = fst (handleImportConfirm gen n Skip incoming prev)
   in length result = length prev + length fresh
    \<and> take (length prev) result = prev
    \<and> (\<forall>k<length fresh.
          result ! (length prev + k) = (fresh ! k)\<lparr>order := Some (maxOrder prev + 1 + int k)\<rparr>)
    \<and> (\<forall>k<length fresh. \<forall>e\<in>set prev. order e \<noteq> order (result ! (length prev + k)))
    \<and> (\<forall>j k. j < k \<and> k < length fresh \<longrightarrow>
          orderOr0 (result ! (length prev + j)) < orderOr0 (result ! (length prev + k)))"
proof -
  define fresh where "fresh = filter (\<lambda>i. invId i \<notin> set (map invId prev)) incoming"
  define result where "result = fst (handleImportConfirm gen n Skip incoming prev)"
  have result: "result = prev @ withOrder (maxOrder prev) 0 fresh"
    by (simp add: result_def handleImportConfirm_def fresh_def Let_def)
  have nth: "result ! (length prev + k) = (fresh ! k)\<lparr>order := Some (maxOrder prev + 1 + int k)\<rparr>"
    if "k < length fresh" for k
    using that by (simp add: result nth_append withOrder_nth algebra_simps)
  have 1: "length result = length prev + length fresh"
    by (simp add: result length_withOrder)
  have 2: "take (length prev) result = prev"
    by (simp add: result)
  have 4: "order e \<noteq> order (result ! (length prev + k))"
    if "k < length fresh" "e \<in> set prev" for k e
  proof
    assume "order e = order (result ! (length prev + k))"
    then have "order e = Some (maxOrder prev + 1 + int k)"
      using nth [OF that(1)] by simp
    then have "orderOr0 e = maxOrder prev + 1 + int k"
      by (simp add: orderOr0_def)
    with orderOr0_le_maxOrder [OF that(2)] show False by simp
  qed
  have 5: "orderOr0 (result ! (length prev + j)) < orderOr0 (result ! (length prev + k))"
    if "j < k \<and> k < length fresh" for j k
    using that nth [of j] nth [of k] by (simp add: orderOr0_def)
  show ?thesis
    unfolding Let_def fresh_def [symmetric] result_def [symmetric]
    using 1 2 nth 4 5 by blast
qed

theorem handleImportConfirm_skip_witness:
  "fst (handleImportConfirm (\<lambda>k. []) 0 Skip
          [exampleInvestment, exampleInvestment\<lparr>invId := ''b''\<rparr>] [exampleInvestment])
     = [exampleInvestment, exampleInvestment\<lparr>invId := ''b'', order := Some 2\<rparr>]"
proof -
  have m: "maxOrder [exampleInvestment] = 1"
    by (simp add: maxOrder_def orderOr0_def exampleInvestment_def)
  have i: "invId exampleInvestment \<noteq> ''b''"
    by (simp add: exampleInvestment_def)
  define result where "result = fst (handleImportConfirm (\<lambda>k. []) 0 Skip
          [exampleInvestment, exampleInvestment\<lparr>invId := ''b''\<rparr>] [exampleInvestment])"
  from handleImportConfirm_skip [of "[exampleInvestment]"
      "[exampleInvestment, exampleInvestment\<lparr>invId := ''b''\<rparr>]" "\<lambda>k. []" 0]
  have "length result = 2" "take 1 result = [exampleInvestment]"
    "result ! 1 = exampleInvestment\<lparr>invId := ''b'', order := Some 2\<rparr>"
    using m i unfolding result_def [symmetric] by (simp_all add: Let_def)
  then have "result = [exampleInvestment, exampleInvestment\<lparr>invId := ''b'', order := Some 2\<rparr>]"
    by (cases result; cases "tl result") (auto simp: Suc_length_conv)
  then show ?thesis unfolding result_def .
qed




text \<open>
  C9 fails in Taipei (UTC+8). The second period of the example investment is due on
  2025-05-31, the monthly report lists it under 2025-05, and it is unpaid; the bulk payment
  for 2025-05 leaves it unpaid.
\<close>

theorem handleBulkPay_last_day_unpaid:
  "getPeriodDueDate 28800000 (startDate exampleInvestment) 2 = Inr ''2025-05-31''
   \<and> monthKey 28800000 (addMonths 28800000 (startDate exampleInvestment) 2) = ''2025-05''
   \<and> paymentHistory exampleInvestment 2 = None
   \<and> map (\<lambda>iv. paymentHistory iv 2)
        (handleBulkPay 28800000 ''2025-06-01'' ''2025-05'' [exampleInvestment]) = [None]"
  by code_simp

end
